theory Spec2Isabelle
  imports Complex_Main "HOL-Library.Log_Nat"
begin

section \<open>JavaScript values\<close>

text \<open>
  The values the viewer stores in its state object and passes to event handlers. A
  finite number is the rational it stands for (the sign of zero is not kept). An object
  of the program is known by its reference, an object or function of the language's
  library by its name.
\<close>

datatype jsnum = NaN | PosInf | NegInf | Fin rat

datatype jsval =
    JUndefined
  | JNull
  | JBool bool
  | JNum jsnum
  | JStr string
  | JObj nat
  | JBuiltin string

text \<open>
  The strict equality \<^verbatim>\<open>===\<close> of the language: same type and same value, objects by
  reference, and \<^verbatim>\<open>NaN\<close> equal to nothing, itself included.
\<close>

fun strict_eq :: "jsval \<Rightarrow> jsval \<Rightarrow> bool" where
  "strict_eq (JNum NaN) _ = False"
| "strict_eq _ (JNum NaN) = False"
| "strict_eq a b = (a = b)"

section \<open>Plain objects\<close>

text \<open>
  A plain object is its own string-keyed properties in insertion order, over the
  prototype of every object literal, \<^verbatim>\<open>Object.prototype\<close>, which is taken as the
  language defines it: twelve properties, the accessor \<^verbatim>\<open>__proto__\<close> among them, which
  reads as the prototype itself. A read looks among the own properties, then in the
  prototype, and gives \<^verbatim>\<open>undefined\<close> when neither has the name. An assignment replaces
  an own property in place or adds it at the end; the trap assigns only under names
  that the target owns (under an inherited \<^verbatim>\<open>__proto__\<close> the prototype's setter would
  run instead). No operation here removes a property.
\<close>

type_synonym obj = "(string \<times> jsval) list"

fun own_get :: "obj \<Rightarrow> string \<Rightarrow> jsval option" where
  "own_get [] k = None"
| "own_get ((k', v) # ps) k = (if k' = k then Some v else own_get ps k)"

definition object_prototype :: obj where
  "object_prototype =
    [(''constructor'', JBuiltin ''Object''),
     (''__defineGetter__'', JBuiltin ''Object.prototype.__defineGetter__''),
     (''__defineSetter__'', JBuiltin ''Object.prototype.__defineSetter__''),
     (''hasOwnProperty'', JBuiltin ''Object.prototype.hasOwnProperty''),
     (''__lookupGetter__'', JBuiltin ''Object.prototype.__lookupGetter__''),
     (''__lookupSetter__'', JBuiltin ''Object.prototype.__lookupSetter__''),
     (''isPrototypeOf'', JBuiltin ''Object.prototype.isPrototypeOf''),
     (''propertyIsEnumerable'', JBuiltin ''Object.prototype.propertyIsEnumerable''),
     (''toString'', JBuiltin ''Object.prototype.toString''),
     (''valueOf'', JBuiltin ''Object.prototype.valueOf''),
     (''__proto__'', JBuiltin ''Object.prototype''),
     (''toLocaleString'', JBuiltin ''Object.prototype.toLocaleString'')]"

definition obj_get :: "obj \<Rightarrow> string \<Rightarrow> jsval" where
  "obj_get t k =
     (case own_get t k of
        Some v \<Rightarrow> v
      | None \<Rightarrow> (case own_get object_prototype k of Some v \<Rightarrow> v | None \<Rightarrow> JUndefined))"

fun obj_put :: "obj \<Rightarrow> string \<Rightarrow> jsval \<Rightarrow> obj" where
  "obj_put [] k v = [(k, v)]"
| "obj_put ((k', v') # ps) k v = (if k' = k then (k, v) # ps else (k', v') # obj_put ps k v)"

definition object_keys :: "obj \<Rightarrow> string list" where
  "object_keys t = map fst t"

section \<open>The observer proxy (src/core/observe.ts)\<close>

text \<open>
  A property key is a string or a symbol. The proxy closes over the member set taken
  from the target at construction and over the target itself. What the trap does to
  the rest of the program is kept in a world: the calls of \<^verbatim>\<open>events.fire\<close>, each with
  its name and its two arguments, and the argument lists of \<^verbatim>\<open>console.error\<close>.
\<close>

datatype propkey = PStr string | PSym nat

record proxy =
  members :: "string set"
  target :: obj

record world =
  fired :: "(string \<times> jsval \<times> jsval) list"
  console :: "jsval list list"

definition observe :: "obj \<Rightarrow> proxy" where
  "observe t = \<lparr>members = set (object_keys t), target = t\<rparr>"

text \<open>
  The \<^verbatim>\<open>set\<close> trap: the boolean it returns, the proxy and the world afterwards.
\<close>

fun set_trap :: "proxy \<Rightarrow> propkey \<Rightarrow> jsval \<Rightarrow> world \<Rightarrow> bool \<times> proxy \<times> world" where
  "set_trap p (PSym s) val w =
     (False, p, w\<lparr>console := console w @ [[JStr ''Cannot set symbol property on target'']]\<rparr>)"
| "set_trap p (PStr property) val w =
     (if property \<notin> members p then
        (False, p,
         w\<lparr>console := console w @ [[JStr ''Cannot set new property on target:'', JStr property]]\<rparr>)
      else if \<not> strict_eq (obj_get (target p) property) val then
        (let prev = obj_get (target p) property in
         (True, p\<lparr>target := obj_put (target p) property val\<rparr>,
          w\<lparr>fired := fired w @ [(property @ '':changed'', val, prev)]\<rparr>))
      else (True, p, w))"

text \<open>
  The handler object has no \<^verbatim>\<open>get\<close> trap, so a read goes to the target as it is;
  neither a plain object nor its prototype has a symbol-keyed property.
\<close>

fun proxy_get :: "proxy \<Rightarrow> propkey \<Rightarrow> world \<Rightarrow> jsval \<times> proxy \<times> world" where
  "proxy_get p (PSym s) w = (JUndefined, p, w)"
| "proxy_get p (PStr property) w = (obj_get (target p) property, p, w)"

text \<open>
  An assignment \<^verbatim>\<open>state[key] = value\<close> as the program writes it (the progress callback
  of \<^verbatim>\<open>main\<close> is \<^verbatim>\<open>state.progress = progress\<close>). Both source files are modules, so the
  code is strict: the assignment runs the trap, and when the trap returns false the
  assignment throws a \<^verbatim>\<open>TypeError\<close> to its caller, after what the trap has done.
  Otherwise its value is the value assigned.
\<close>

datatype exn = TypeError

definition assign :: "proxy \<Rightarrow> propkey \<Rightarrow> jsval \<Rightarrow> world \<Rightarrow> (exn + jsval) \<times> proxy \<times> world" where
  "assign p key val w =
     (case set_trap p key val w of
        (ok, p', w') \<Rightarrow> (if ok then Inr val else Inl TypeError, p', w'))"

text \<open>The state object that \<^verbatim>\<open>main\<close> wraps.\<close>

definition initial_state :: obj where
  "initial_state =
    [(''readyToRender'', JBool False),
     (''hqMode'', JBool True),
     (''progress'', JNum (Fin 0)),
     (''inputMode'', JStr ''desktop''),
     (''cameraMode'', JStr ''orbit''),
     (''hasAnimation'', JBool False),
     (''animationDuration'', JNum (Fin 0)),
     (''animationTime'', JNum (Fin 0)),
     (''animationPaused'', JBool True),
     (''hasAR'', JBool False),
     (''hasVR'', JBool False),
     (''isFullscreen'', JBool False),
     (''controlsHidden'', JBool False)]"

definition empty_world :: world where
  "empty_world = \<lparr>fired = [], console = []\<rparr>"

section \<open>The content loader (loadGsplat)\<close>

subsection \<open>The progress handler\<close>

text \<open>
  The numbers of the language are IEEE 754 doubles: a division and a multiplication
  give the double nearest to the exact result, the even one of two that are equally
  near. A double is modelled by the rational it stands for. The rounding keeps 53
  significant bits at the binary exponent of the value, which is not taken below
  \<open>-1022\<close>; the values rounded here are quotients of byte counts and percentages, far
  from the overflow threshold.
\<close>

definition round_half_even :: "rat \<Rightarrow> int" where
  "round_half_even y =
     (let n = \<lfloor>y\<rfloor>; f = y - of_int n in
      if f < 1 / 2 then n else if 1 / 2 < f then n + 1 else if even n then n else n + 1)"

text \<open>For a positive \<open>x\<close>, the \<open>e\<close> with \<open>2 powi e \<le> x < 2 powi (e + 1)\<close>.\<close>

definition exponent :: "rat \<Rightarrow> int" where
  "exponent x = (if 1 \<le> x then bitlen \<lfloor>x\<rfloor> - 1 else - bitlen (\<lceil>1 / x\<rceil> - 1))"

definition round_double :: "rat \<Rightarrow> rat" where
  "round_double x =
     (if x = 0 then 0
      else let q = 2 powi (max (exponent \<bar>x\<bar>) (- 1022) - 52)
           in of_int (round_half_even (x / q)) * q)"

definition div_double :: "rat \<Rightarrow> rat \<Rightarrow> rat" where
  "div_double a b = round_double (a / b)"

definition mul_double :: "rat \<Rightarrow> rat \<Rightarrow> rat" where
  "mul_double a b = round_double (a * b)"

text \<open>
  \<^verbatim>\<open>Math.min(1, received / length) * 100\<close> on two byte counts, which are integers that a
  double holds exactly. A division by zero gives \<^verbatim>\<open>Infinity\<close>, which the minimum
  brings back to 1, and zero by zero gives \<^verbatim>\<open>NaN\<close>, which stays \<^verbatim>\<open>NaN\<close>: the result
  \<open>None\<close>.
\<close>

definition progress_of :: "nat \<Rightarrow> nat \<Rightarrow> rat option" where
  "progress_of received len =
     (if len = 0 then (if received = 0 then None else Some (mul_double 1 100))
      else Some (mul_double (min 1 (div_double (of_nat received) (of_nat len))) 100))"

text \<open>\<^verbatim>\<open>Math.trunc\<close>: the integer part, towards zero.\<close>

definition math_trunc :: "rat \<Rightarrow> int" where
  "math_trunc x = (if 0 \<le> x then \<lfloor>x\<rfloor> else \<lceil>x\<rceil>)"

text \<open>
  The handler's variable \<^verbatim>\<open>watermark\<close> and the arguments \<^verbatim>\<open>progressCallback\<close> has been
  called with so far, oldest first. A comparison with \<^verbatim>\<open>NaN\<close> is false.
\<close>

record progress_state =
  watermark :: rat
  calls :: "int list"

definition progress_init :: progress_state where
  "progress_init = \<lparr>watermark = 0, calls = []\<rparr>"

definition on_progress :: "progress_state \<Rightarrow> nat \<times> nat \<Rightarrow> progress_state" where
  "on_progress st ev =
     (case progress_of (fst ev) (snd ev) of
        None \<Rightarrow> st
      | Some progress \<Rightarrow>
          if progress > watermark st
          then \<lparr>watermark = progress, calls = calls st @ [math_trunc progress]\<rparr>
          else st)"

text \<open>One load: the progress events of the asset, delivered in order.\<close>

definition run_progress :: "(nat \<times> nat) list \<Rightarrow> progress_state" where
  "run_progress evs = foldl on_progress progress_init evs"

subsection \<open>The file name\<close>

text \<open>
  \<^verbatim>\<open>pathname.split('/').pop()\<close>: the segments between the separators, of which there
  is always at least one, and the last of them.
\<close>

fun split_from :: "char \<Rightarrow> string \<Rightarrow> string \<Rightarrow> string list" where
  "split_from sep cur [] = [rev cur]"
| "split_from sep cur (c # cs) =
     (if c = sep then rev cur # split_from sep [] cs else split_from sep (c # cur) cs)"

definition split :: "char \<Rightarrow> string \<Rightarrow> string list" where
  "split sep s = split_from sep [] s"

definition filename_of :: "string \<Rightarrow> string" where
  "filename_of pathname = last (split CHR ''/'' pathname)"

text \<open>
  \<^verbatim>\<open>toLowerCase\<close> on the ASCII text of a URL path, and \<^verbatim>\<open>endsWith\<close>.
\<close>

definition lower_char :: "char \<Rightarrow> char" where
  "lower_char c =
     (let n = (of_char c :: nat) in if 65 \<le> n \<and> n \<le> 90 then char_of (n + 32) else c)"

definition toLowerCase :: "string \<Rightarrow> string" where
  "toLowerCase s = map lower_char s"

definition endsWith :: "string \<Rightarrow> string \<Rightarrow> bool" where
  "endsWith s suffix =
     (length suffix \<le> length s \<and> drop (length s - length suffix) s = suffix)"

subsection \<open>The asset and the entity\<close>

text \<open>
  The fields of the configuration that the loader and \<^verbatim>\<open>main\<close> read. An optional field
  that is \<^verbatim>\<open>undefined\<close> is \<open>None\<close>.
\<close>

record 'b config =
  contents :: 'b
  contentUrl :: string
  unified :: bool
  aa :: bool
  skyboxUrl :: "string option"
  skyboxProjection :: "string option"
  skyboxScale :: "jsnum option"
  skyboxCenter :: "jsnum list option"

text \<open>
  The arguments of \<^verbatim>\<open>new Asset(filename, 'gsplat', {url, filename, contents}, data)\<close>;
  \<open>None\<close> is the \<^verbatim>\<open>undefined\<close> data argument.
\<close>

record ('b, 'j) asset =
  asset_name :: string
  asset_type :: string
  file_url :: string
  file_filename :: string
  file_contents :: 'b
  asset_data :: "'j option"

text \<open>
  The part of \<^verbatim>\<open>loadGsplat\<close> before the promise. The browser's URL parser and the
  response's \<^verbatim>\<open>json()\<close> are parameters, each of which may throw; an exception makes
  the function's promise reject before any asset is built.
\<close>

definition loadGsplat_asset ::
    "(string \<Rightarrow> 'e + string) \<Rightarrow> ('b \<Rightarrow> 'e + 'j) \<Rightarrow> 'b config \<Rightarrow> 'e + ('b, 'j) asset" where
  "loadGsplat_asset url_pathname json cfg =
     (case url_pathname (contentUrl cfg) of
        Inl e \<Rightarrow> Inl e
      | Inr pathname \<Rightarrow>
          (let filename = filename_of pathname in
           if toLowerCase filename = ''meta.json'' then
             (case json (contents cfg) of
                Inl e \<Rightarrow> Inl e
              | Inr d \<Rightarrow>
                  Inr \<lparr>asset_name = filename, asset_type = ''gsplat'',
                       file_url = contentUrl cfg, file_filename = filename,
                       file_contents = contents cfg, asset_data = Some d\<rparr>)
           else
             Inr \<lparr>asset_name = filename, asset_type = ''gsplat'',
                  file_url = contentUrl cfg, file_filename = filename,
                  file_contents = contents cfg, asset_data = None\<rparr>))"

text \<open>
  The handler of the asset's load event: the entity it builds. The component's
  \<^verbatim>\<open>unified\<close> property is read back as it was given.
\<close>

datatype material = SceneGsplatMaterial | EntityGsplatMaterial

record entity =
  entity_name :: string
  localEulerAngles :: "int \<times> int \<times> int"
  gsplat_unified :: bool
  gsplat_material :: material
  define_GSPLAT_AA :: bool
  alphaClip :: rat

definition on_load :: "'b config \<Rightarrow> string \<Rightarrow> entity" where
  "on_load cfg filename =
     (let u = (unified cfg \<or> endsWith (toLowerCase filename) ''lod-meta.json'') in
      \<lparr>entity_name = ''gsplat'',
       localEulerAngles = (0, 0, 180),
       gsplat_unified = u,
       gsplat_material = (if u then SceneGsplatMaterial else EntityGsplatMaterial),
       define_GSPLAT_AA = aa cfg,
       alphaClip = 1 / 255\<rparr>)"

section \<open>The orchestrator (main)\<close>

text \<open>
  The background section of the imported settings, and the operators \<^verbatim>\<open>||\<close> and
  \<^verbatim>\<open>??\<close> on optional values: a string is truthy when it is defined and not empty, an
  array when it is defined; \<^verbatim>\<open>??\<close> keeps every defined value.
\<close>

record background =
  bg_skyboxUrl :: "string option"
  bg_skyboxProjection :: "string option"
  bg_skyboxScale :: "jsnum option"
  bg_skyboxCenter :: "jsnum list option"

fun truthy_str :: "string option \<Rightarrow> bool" where
  "truthy_str None = False"
| "truthy_str (Some s) = (s \<noteq> [])"

definition or_str :: "string option \<Rightarrow> string option \<Rightarrow> string option" where
  "or_str a b = (if truthy_str a then a else b)"

fun or_arr :: "'a list option \<Rightarrow> 'a list option \<Rightarrow> 'a list option" where
  "or_arr (Some xs) b = Some xs"
| "or_arr None b = b"

fun nullish :: "'a option \<Rightarrow> 'a option \<Rightarrow> 'a option" where
  "nullish (Some x) b = Some x"
| "nullish None b = b"

text \<open>
  What \<^verbatim>\<open>main\<close> does with the loaders: the loader calls in order, the four resolved
  skybox values, and the two load arguments of \<^verbatim>\<open>new Viewer\<close>. The second of them is
  \<^verbatim>\<open>skyboxUrl && loadSkybox(...).then(...)\<close>: the falsy URL value, with no call of
  the loader, or the promise of a load that the expression has just started.
\<close>

datatype load = GsplatLoad | SkyboxLoad string

datatype handle = Promise load | Falsy "string option"

record main_result =
  started :: "load list"
  res_skyboxUrl :: "string option"
  res_skyboxProjection :: "string option"
  res_skyboxScale :: "jsnum option"
  res_skyboxCenter :: "jsnum list option"
  viewer_gsplatLoad :: handle
  viewer_skyboxLoad :: handle

fun and_loadSkybox :: "string option \<Rightarrow> handle" where
  "and_loadSkybox None = Falsy None"
| "and_loadSkybox (Some u) = (if u = [] then Falsy (Some u) else Promise (SkyboxLoad u))"

fun loads_of :: "handle \<Rightarrow> load list" where
  "loads_of (Promise l) = [l]"
| "loads_of (Falsy v) = []"

definition main :: "background \<Rightarrow> 'b config \<Rightarrow> main_result" where
  "main bg cfg =
     (let url = or_str (skyboxUrl cfg) (bg_skyboxUrl bg);
          projection = or_str (or_str (skyboxProjection cfg) (bg_skyboxProjection bg)) (Some ''box'');
          scale = nullish (nullish (skyboxScale cfg) (bg_skyboxScale bg)) (Some (Fin 200));
          center = or_arr (or_arr (skyboxCenter cfg) (bg_skyboxCenter bg)) (Some [Fin 0, Fin 0, Fin 0])
      in
      \<lparr>started = GsplatLoad # loads_of (and_loadSkybox url),
       res_skyboxUrl = url,
       res_skyboxProjection = projection,
       res_skyboxScale = scale,
       res_skyboxCenter = center,
       viewer_gsplatLoad = Promise GsplatLoad,
       viewer_skyboxLoad = and_loadSkybox url\<rparr>)"

section \<open>Facts about the building blocks\<close>

lemma strict_eq_iff: "strict_eq a b \<longleftrightarrow> a = b \<and> a \<noteq> JNum NaN"
  by (cases "(a, b)" rule: strict_eq.cases) auto

lemma own_get_put_same: "own_get (obj_put t k v) k = Some v"
  by (induction t) auto

lemma own_get_put_other: "k' \<noteq> k \<Longrightarrow> own_get (obj_put t k v) k' = own_get t k'"
  by (induction t) auto

lemma own_get_absent: "k \<notin> set (object_keys t) \<Longrightarrow> own_get t k = None"
  by (induction t) (auto simp: object_keys_def)

lemma obj_get_put_same: "obj_get (obj_put t k v) k = v"
  by (simp add: obj_get_def own_get_put_same)

lemma obj_get_put_other: "k' \<noteq> k \<Longrightarrow> obj_get (obj_put t k v) k' = obj_get t k'"
  by (simp add: obj_get_def own_get_put_other)

lemma obj_get_absent:
  "k \<notin> set (object_keys t) \<Longrightarrow> k \<notin> set (object_keys object_prototype)
   \<Longrightarrow> obj_get t k = JUndefined"
  by (simp add: obj_get_def own_get_absent)

lemma obj_get_initial_state:
  "obj_get initial_state ''inputMode'' = JStr ''desktop''"
  "obj_get initial_state ''progress'' = JNum (Fin 0)"
  "obj_get initial_state ''bogusField'' = JUndefined"
  "obj_get initial_state ''toString'' = JBuiltin ''Object.prototype.toString''"
  by (simp_all add: obj_get_def initial_state_def object_prototype_def)

lemma object_keys_put: "k \<in> set (object_keys t) \<Longrightarrow> object_keys (obj_put t k v) = object_keys t"
  by (induction t) (force simp: object_keys_def)+

lemma set_trap_members: "members (fst (snd (set_trap p key v w))) = members p"
  by (cases key) (simp_all add: Let_def)

text \<open>The members of a proxy are own properties of its target, and stay so.\<close>

lemma observe_members_own: "members (observe t) \<subseteq> set (object_keys (target (observe t)))"
  by (simp add: observe_def)

lemma set_trap_members_own:
  assumes "members p \<subseteq> set (object_keys (target p))"
  shows "members (fst (snd (set_trap p key v w)))
           \<subseteq> set (object_keys (target (fst (snd (set_trap p key v w)))))"
proof (cases key)
  case (PSym s)
  with assms show ?thesis by simp
next
  case (PStr k)
  show ?thesis
  proof (cases "k \<in> members p")
    case True
    with assms have "k \<in> set (object_keys (target p))" by blast
    then have "object_keys (obj_put (target p) k v) = object_keys (target p)"
      by (rule object_keys_put)
    with assms PStr show ?thesis by (simp add: Let_def)
  next
    case False
    with assms PStr show ?thesis by simp
  qed
qed

lemma funpow_fixed: "f x = x \<Longrightarrow> (f ^^ n) x = x"
  by (induction n) simp_all

lemma floor_rat_numeral: "\<lfloor>(numeral a / numeral b :: rat)\<rfloor> = numeral a div numeral b"
  using floor_divide_of_int_eq [of "numeral a" "numeral b", where ?'a = rat] by simp

lemma round_half_even_nonneg: "0 \<le> y \<Longrightarrow> 0 \<le> round_half_even y"
  by (auto simp: round_half_even_def Let_def)

lemma round_half_even_le:
  assumes "y \<le> of_int K"
  shows "round_half_even y \<le> K"
proof (cases "\<lfloor>y\<rfloor> = K")
  case True
  with assms have "y = of_int K"
    using of_int_floor_le [of y] by simp
  then show ?thesis by (simp add: round_half_even_def)
next
  case False
  from assms have "\<lfloor>y\<rfloor> \<le> K" by (simp add: floor_le_iff)
  with False have "\<lfloor>y\<rfloor> + 1 \<le> K" by simp
  then show ?thesis by (auto simp: round_half_even_def Let_def)
qed

lemma powi_of_bitlen: "0 < b \<Longrightarrow> (2::rat) powi b = of_int (2 ^ nat b)"
  by (simp add: power_int_def)

lemma exponent_bounds:
  assumes "0 < x"
  shows "2 powi (exponent x) \<le> x \<and> x < 2 powi (exponent x + 1)"
proof (cases "1 \<le> x")
  case True
  let ?n = "\<lfloor>x\<rfloor>"
  from True have n: "0 < ?n" by simp
  then have b: "2 ^ nat (bitlen ?n - 1) \<le> ?n \<and> ?n < 2 ^ nat (bitlen ?n)"
    by (rule bitlen_bounds)
  from n have b1: "1 \<le> bitlen ?n"
    using bitlen_eq_zero_iff [of ?n] bitlen_nonneg [of ?n] by linarith
  have e: "exponent x = bitlen ?n - 1" using True by (simp add: exponent_def)
  have "(2::rat) powi (bitlen ?n - 1) = of_int (2 ^ nat (bitlen ?n - 1))"
    using b1 by (simp add: power_int_def)
  also have "\<dots> \<le> of_int ?n" using b by (simp only: of_int_le_iff)
  also have "\<dots> \<le> x" by simp
  finally have lo: "2 powi (exponent x) \<le> x" by (simp add: e)
  have "?n + 1 \<le> 2 ^ nat (bitlen ?n)" using b by simp
  then have "(of_int (?n + 1) :: rat) \<le> of_int (2 ^ nat (bitlen ?n))"
    by (simp only: of_int_le_iff)
  moreover have "x < of_int (?n + 1)" by linarith
  moreover have "(2::rat) powi (bitlen ?n) = of_int (2 ^ nat (bitlen ?n))"
    using b1 by (simp add: power_int_def)
  ultimately have "x < 2 powi (exponent x + 1)" by (simp add: e)
  with lo show ?thesis ..
next
  case False
  let ?y = "1 / x"
  let ?m = "\<lceil>?y\<rceil> - 1"
  let ?b = "bitlen ?m"
  from False assms have y1: "1 < ?y" by simp
  then have "2 \<le> \<lceil>?y\<rceil>" by (simp add: le_ceiling_iff) linarith?
  then have m: "0 < ?m" by simp
  then have b: "2 ^ nat (?b - 1) \<le> ?m \<and> ?m < 2 ^ nat ?b"
    by (rule bitlen_bounds)
  from m have b1: "1 \<le> ?b"
    using bitlen_eq_zero_iff [of ?m] bitlen_nonneg [of ?m] by linarith
  have e: "exponent x = - ?b" using False by (simp add: exponent_def)
  have p: "(2::rat) powi ?b = of_int (2 ^ nat ?b)"
    using b1 by (simp add: power_int_def)
  have p1: "(2::rat) powi (?b - 1) = of_int (2 ^ nat (?b - 1))"
    using b1 by (simp add: power_int_def)
  have "\<lceil>?y\<rceil> \<le> 2 ^ nat ?b" using b by simp
  then have "(of_int \<lceil>?y\<rceil> :: rat) \<le> of_int (2 ^ nat ?b)" by (simp only: of_int_le_iff)
  then have "?y \<le> 2 powi ?b" using le_of_int_ceiling [of ?y] by (simp only: p)
  then have lo: "2 powi (- ?b) \<le> x"
    using assms by (simp add: power_int_minus field_simps)
  have "(of_int (2 ^ nat (?b - 1)) :: rat) \<le> of_int ?m" using b by (simp only: of_int_le_iff)
  moreover have "of_int ?m < ?y" using ceiling_correct [of ?y] by simp
  ultimately have "2 powi (?b - 1) < ?y" by (simp only: p1)
  then have "2 powi (?b - 1) * x < 1"
    using assms by (simp add: pos_less_divide_eq)
  then have "x * 2 powi (?b - 1) < 1"
    by (simp add: mult.commute)
  then have "x < 1 / 2 powi (?b - 1)"
    by (simp add: pos_less_divide_eq)
  then have "x < 2 powi (- (?b - 1))"
    by (simp only: power_int_minus_divide)
  then have "x < 2 powi (exponent x + 1)" by (simp add: e)
  with lo show ?thesis by (simp add: e)
qed

lemma exponent_unique:
  assumes "0 < x" "2 powi e \<le> x" "x < 2 powi (e + 1)"
  shows "exponent x = e"
proof -
  from assms(1) have b: "2 powi (exponent x) \<le> x" "x < 2 powi (exponent x + 1)"
    using exponent_bounds by blast+
  have "(2::rat) powi e < 2 powi (exponent x + 1)" using assms(2) b(2) by simp
  then have "e < exponent x + 1"
    using power_int_increasing [of "exponent x + 1" e "2::rat"] by (cases "e < exponent x + 1") auto
  moreover have "(2::rat) powi (exponent x) < 2 powi (e + 1)" using assms(3) b(1) by simp
  then have "exponent x < e + 1"
    using power_int_increasing [of "e + 1" "exponent x" "2::rat"] by (cases "exponent x < e + 1") auto
  ultimately show ?thesis by simp
qed

lemma round_double_at:
  assumes "0 < x" "2 powi e \<le> x" "x < 2 powi (e + 1)" "- 1022 \<le> e"
  shows "round_double x = of_int (round_half_even (x / 2 powi (e - 52))) * 2 powi (e - 52)"
proof -
  from assms(1-3) have "exponent x = e" by (rule exponent_unique)
  with assms(1,4) show ?thesis by (simp add: round_double_def Let_def max_def)
qed

lemma round_double_nonneg:
  assumes "0 \<le> x"
  shows "0 \<le> round_double x"
proof (cases "x = 0")
  case True
  then show ?thesis by (simp add: round_double_def)
next
  case False
  let ?q = "(2::rat) powi (max (exponent \<bar>x\<bar>) (- 1022) - 52)"
  have q: "0 < ?q" by simp
  with assms have "0 \<le> x / ?q" by simp
  then have "0 \<le> round_half_even (x / ?q)" by (rule round_half_even_nonneg)
  with q False show ?thesis by (simp add: round_double_def Let_def)
qed

lemma round_double_le_100:
  assumes "0 \<le> x" "x \<le> 100"
  shows "round_double x \<le> 100"
proof (cases "x = 0")
  case True
  then show ?thesis by (simp add: round_double_def)
next
  case False
  with assms have pos: "0 < x" by simp
  let ?e = "exponent x"
  let ?k = "max ?e (- 1022) - 52"
  let ?q = "(2::rat) powi ?k"
  from pos have "2 powi ?e \<le> x" using exponent_bounds by blast
  with assms(2) have "(2::rat) powi ?e < 2 powi 7" by simp
  then have "?e < 7"
    using power_int_increasing [of 7 ?e "2::rat"] by (cases "?e < 7") auto
  then have k: "?k < 0" by simp
  have q: "0 < ?q" by simp
  have qi: "?q = 1 / of_int (2 ^ nat (- ?k))"
    using k by (simp add: power_int_def field_simps)
  have "x / ?q \<le> 100 / ?q" using assms(2) q by (simp add: divide_right_mono)
  also have "100 / ?q = of_int (100 * 2 ^ nat (- ?k))" by (simp add: qi)
  finally have "round_half_even (x / ?q) \<le> 100 * 2 ^ nat (- ?k)"
    by (rule round_half_even_le)
  then have "(of_int (round_half_even (x / ?q)) :: rat) \<le> of_int (100 * 2 ^ nat (- ?k))"
    by (simp only: of_int_le_iff)
  then have "of_int (round_half_even (x / ?q)) * ?q \<le> of_int (100 * 2 ^ nat (- ?k)) * ?q"
    using q by (simp only: mult_le_cancel_right_pos)
  also have "of_int (100 * 2 ^ nat (- ?k)) * ?q = 100" by (simp add: qi)
  finally show ?thesis using pos by (simp add: round_double_def Let_def)
qed


lemma round_double_values:
  "round_double (1 / 4) = 1 / 4"
  "round_double 25 = 25"
  "round_double 1 = 1"
  "round_double 100 = 100"
  "round_double (29 / 100) = 5224175567749775 / 18014398509481984"
  "round_double (130604389193744375 / 4503599627370496)
     = 8162774324609023 / 281474976710656"
  "round_double (51 / 200) = 2296835809958953 / 9007199254740992"
  "round_double (57420895248973825 / 2251799813685248) = 51 / 2"
  using round_double_at [of "1 / 4" "- 2"] round_double_at [of 25 4]
    round_double_at [of 1 0] round_double_at [of 100 6]
    round_double_at [of "29 / 100" "- 2"]
    round_double_at [of "130604389193744375 / 4503599627370496" 4]
    round_double_at [of "51 / 200" "- 2"]
    round_double_at [of "57420895248973825 / 2251799813685248" 4]
  by (simp_all add: round_half_even_def Let_def floor_rat_numeral)

lemma progress_of_values:
  "progress_of 50 200 = Some 25"
  "progress_of 200 200 = Some 100"
  "progress_of 250 1000 = Some 25"
  "progress_of 255 1000 = Some (51 / 2)"
  "progress_of 29 100 = Some (8162774324609023 / 281474976710656)"
  by (simp_all add: progress_of_def div_double_def mul_double_def round_double_values)

lemma progress_of_bounds:
  assumes "progress_of r l = Some p"
  shows "0 \<le> p \<and> p \<le> 100"
proof -
  have hundred: "0 \<le> mul_double 1 100 \<and> mul_double 1 100 \<le> 100"
    by (simp add: mul_double_def round_double_values)
  let ?q = "min 1 (div_double (of_nat r) (of_nat l))"
  have "0 \<le> div_double (of_nat r) (of_nat l)"
    unfolding div_double_def by (rule round_double_nonneg) simp
  then have q: "0 \<le> ?q \<and> ?q \<le> 1" by simp
  then have "0 \<le> ?q * 100 \<and> ?q * 100 \<le> 100" by simp
  then have "0 \<le> mul_double ?q 100 \<and> mul_double ?q 100 \<le> 100"
    unfolding mul_double_def by (simp add: round_double_nonneg round_double_le_100)
  with hundred assms show ?thesis
    by (auto simp: progress_of_def split: if_splits)
qed

lemma math_trunc_mono: "0 \<le> x \<Longrightarrow> x \<le> y \<Longrightarrow> math_trunc x \<le> math_trunc y"
  by (simp add: math_trunc_def floor_mono)

lemma math_trunc_lower: "0 \<le> x \<Longrightarrow> 0 \<le> math_trunc x"
  by (simp add: math_trunc_def)

lemma math_trunc_upper: "0 \<le> x \<Longrightarrow> x \<le> 100 \<Longrightarrow> math_trunc x \<le> 100"
  by (simp add: math_trunc_def floor_le_iff)

text \<open>
  What every progress event keeps: the calls so far are the integer parts of a strictly
  increasing run of percentages, none of them above the watermark.
\<close>

lemma on_progress_keeps:
  assumes c: "calls st = map math_trunc ws"
    and s: "sorted_wrt (<) ws"
    and b: "\<forall>x \<in> set ws. 0 < x \<and> x \<le> watermark st"
    and w: "0 \<le> watermark st \<and> watermark st \<le> 100"
  shows "\<exists>ws'. calls (on_progress st ev) = map math_trunc ws' \<and> sorted_wrt (<) ws'
           \<and> (\<forall>x \<in> set ws'. 0 < x \<and> x \<le> watermark (on_progress st ev))
           \<and> 0 \<le> watermark (on_progress st ev) \<and> watermark (on_progress st ev) \<le> 100"
proof (cases "progress_of (fst ev) (snd ev)")
  case None
  then have "on_progress st ev = st" by (simp add: on_progress_def)
  with c s b w show ?thesis by auto
next
  case (Some p)
  show ?thesis
  proof (cases "p > watermark st")
    case False
    with Some have "on_progress st ev = st" by (simp add: on_progress_def)
    with c s b w show ?thesis by auto
  next
    case True
    from Some have pb: "0 \<le> p \<and> p \<le> 100" by (rule progress_of_bounds)
    from True Some have eq: "on_progress st ev = \<lparr>watermark = p, calls = calls st @ [math_trunc p]\<rparr>"
      by (simp add: on_progress_def)
    have "calls (on_progress st ev) = map math_trunc (ws @ [p])"
      using c by (simp add: eq)
    moreover have "sorted_wrt (<) (ws @ [p])"
      using s b True by (auto simp: sorted_wrt_append)
    moreover have "\<forall>x \<in> set (ws @ [p]). 0 < x \<and> x \<le> watermark (on_progress st ev)"
      using b w True by (auto simp: eq)
    moreover have "0 \<le> watermark (on_progress st ev) \<and> watermark (on_progress st ev) \<le> 100"
      using pb by (simp add: eq)
    ultimately show ?thesis by blast
  qed
qed

lemma foldl_on_progress_keeps:
  assumes "\<exists>ws. calls st = map math_trunc ws \<and> sorted_wrt (<) ws
           \<and> (\<forall>x \<in> set ws. 0 < x \<and> x \<le> watermark st)
           \<and> 0 \<le> watermark st \<and> watermark st \<le> 100"
  shows "\<exists>ws. calls (foldl on_progress st evs) = map math_trunc ws \<and> sorted_wrt (<) ws
           \<and> (\<forall>x \<in> set ws. 0 < x \<and> x \<le> watermark (foldl on_progress st evs))
           \<and> 0 \<le> watermark (foldl on_progress st evs) \<and> watermark (foldl on_progress st evs) \<le> 100"
  using assms
proof (induction evs arbitrary: st)
  case Nil
  then show ?case by simp
next
  case (Cons ev evs)
  from Cons.prems obtain ws where "calls st = map math_trunc ws" "sorted_wrt (<) ws"
    "\<forall>x \<in> set ws. 0 < x \<and> x \<le> watermark st" "0 \<le> watermark st \<and> watermark st \<le> 100"
    by blast
  then have "\<exists>ws'. calls (on_progress st ev) = map math_trunc ws' \<and> sorted_wrt (<) ws'
           \<and> (\<forall>x \<in> set ws'. 0 < x \<and> x \<le> watermark (on_progress st ev))
           \<and> 0 \<le> watermark (on_progress st ev) \<and> watermark (on_progress st ev) \<le> 100"
    by (rule on_progress_keeps)
  then show ?case using Cons.IH by simp
qed

lemma run_progress_keeps:
  "\<exists>ws. calls (run_progress evs) = map math_trunc ws \<and> sorted_wrt (<) ws
     \<and> (\<forall>x \<in> set ws. 0 < x \<and> x \<le> 100)"
proof -
  have "\<exists>ws. calls progress_init = map math_trunc ws \<and> sorted_wrt (<) ws
           \<and> (\<forall>x \<in> set ws. 0 < x \<and> x \<le> watermark progress_init)
           \<and> 0 \<le> watermark progress_init \<and> watermark progress_init \<le> 100"
    by (rule exI[of _ "[]"]) (simp add: progress_init_def)
  then have "\<exists>ws. calls (foldl on_progress progress_init evs) = map math_trunc ws \<and> sorted_wrt (<) ws
           \<and> (\<forall>x \<in> set ws. 0 < x \<and> x \<le> watermark (foldl on_progress progress_init evs))
           \<and> 0 \<le> watermark (foldl on_progress progress_init evs)
           \<and> watermark (foldl on_progress progress_init evs) \<le> 100"
    by (rule foldl_on_progress_keeps)
  then show ?thesis unfolding run_progress_def by force
qed

lemma sorted_map_math_trunc:
  "sorted_wrt (<) ws \<Longrightarrow> \<forall>x \<in> set ws. 0 < x \<Longrightarrow> sorted (map math_trunc ws)"
  by (induction ws) (auto intro!: math_trunc_mono)

lemma run_progress_snoc: "run_progress (evs @ [ev]) = on_progress (run_progress evs) ev"
  by (simp add: run_progress_def)

lemma watermark_on_progress:
  "watermark (on_progress st ev) =
     (case progress_of (fst ev) (snd ev) of None \<Rightarrow> watermark st | Some p \<Rightarrow> max (watermark st) p)"
  by (simp add: on_progress_def max_def split: option.splits)

text \<open>The watermark is the largest percentage reported so far, or where it started.\<close>

lemma watermark_foldl:
  "watermark (foldl on_progress st evs) =
     Max (insert (watermark st) (set (List.map_filter (\<lambda>ev. progress_of (fst ev) (snd ev)) evs)))"
proof (induction evs arbitrary: st)
  case Nil
  show ?case by (simp add: List.map_filter_simps)
next
  case (Cons ev evs)
  let ?S = "set (List.map_filter (\<lambda>ev. progress_of (fst ev) (snd ev)) evs)"
  have fin: "finite ?S" by simp
  have ih: "watermark (foldl on_progress (on_progress st ev) evs) =
      Max (insert (watermark (on_progress st ev)) ?S)"
    by (rule Cons.IH)
  show ?case
  proof (cases "progress_of (fst ev) (snd ev)")
    case None
    then have "watermark (on_progress st ev) = watermark st"
      by (simp add: watermark_on_progress)
    with None ih show ?thesis
      by (simp add: List.map_filter_simps)
  next
    case (Some p)
    then have w: "watermark (on_progress st ev) = max (watermark st) p"
      by (simp add: watermark_on_progress)
    have "Max (insert (max (watermark st) p) ?S) = Max (insert (watermark st) (insert p ?S))"
    proof (cases "?S = {}")
      case True
      then show ?thesis by (simp add: max.commute)
    next
      case False
      with fin show ?thesis by (simp add: max.assoc)
    qed
    with Some ih w show ?thesis
      by (simp add: List.map_filter_simps)
  qed
qed

lemma split_from_nonempty: "split_from sep cur s \<noteq> []"
  by (induction s arbitrary: cur) auto

lemma split_nonempty: "split sep s \<noteq> []"
  by (simp add: split_def split_from_nonempty)

lemma endsWith_length: "endsWith s suffix \<Longrightarrow> length suffix \<le> length s"
  by (simp add: endsWith_def)

lemma lod_not_manifest:
  assumes "endsWith (toLowerCase f) ''lod-meta.json''"
  shows "toLowerCase f \<noteq> ''meta.json''"
proof
  assume "toLowerCase f = ''meta.json''"
  then have "length (toLowerCase f) = 9" by simp
  moreover from assms have "length ''lod-meta.json'' \<le> length (toLowerCase f)"
    by (rule endsWith_length)
  ultimately show False by simp
qed

lemma truthy_or_str: "truthy_str (or_str a b) \<longleftrightarrow> truthy_str a \<or> truthy_str b"
  by (simp add: or_str_def)

lemma list_all_math_trunc:
  "list_all (\<lambda>x. 0 < x \<and> x \<le> 100) ws \<Longrightarrow>
   list_all (\<lambda>v. 0 \<le> v \<and> v \<le> 100) (map math_trunc ws)"
  by (induction ws) (simp_all add: math_trunc_lower math_trunc_upper)

lemma and_loadSkybox_falsy: "\<not> truthy_str u \<Longrightarrow> and_loadSkybox u = Falsy u"
  by (cases u) simp_all

lemma and_loadSkybox_truthy:
  "truthy_str u \<Longrightarrow> \<exists>s. u = Some s \<and> and_loadSkybox u = Promise (SkyboxLoad s)"
  by (cases u) simp_all

lemma main_started: "started (main bg cfg) = GsplatLoad # loads_of (viewer_skyboxLoad (main bg cfg))"
  by (simp add: main_def Let_def)

lemma main_skyboxLoad: "viewer_skyboxLoad (main bg cfg) = and_loadSkybox (res_skyboxUrl (main bg cfg))"
  by (simp add: main_def Let_def)

lemma main_skyboxUrl: "res_skyboxUrl (main bg cfg) = or_str (skyboxUrl cfg) (bg_skyboxUrl bg)"
  by (simp add: main_def Let_def)

lemma filename_eval:
  "filename_of ''/scene/META.json'' = ''META.json''"
  "filename_of ''/scene/scene.ply'' = ''scene.ply''"
  "filename_of ''/scene/LOD-meta.json'' = ''LOD-meta.json''"
  by (simp_all add: filename_of_def split_def)

lemma lower_eval:
  "toLowerCase ''META.json'' = ''meta.json''"
  "toLowerCase ''scene.ply'' = ''scene.ply''"
  "toLowerCase ''LOD-meta.json'' = ''lod-meta.json''"
  by code_simp+

section \<open>The observer proxy: claims\<close>

text \<open>
  C2. For a field of the member set: a write of a value that is not strictly equal to
  the stored one returns true, stores the value, and adds exactly one call of
  \<^verbatim>\<open>fire\<close>, named by the field followed by \<^verbatim>\<open>:changed\<close>, with the new value and the
  previous one; a write of a strictly equal value returns true and leaves the proxy and
  the world as they are, however many times it is repeated.
\<close>

theorem set_known_field:
  assumes "property \<in> members p"
  shows "(\<not> strict_eq (obj_get (target p) property) v \<longrightarrow>
            set_trap p (PStr property) v w =
              (True, p\<lparr>target := obj_put (target p) property v\<rparr>,
               w\<lparr>fired := fired w @ [(property @ '':changed'', v, obj_get (target p) property)]\<rparr>)
            \<and> obj_get (obj_put (target p) property v) property = v)
       \<and> (strict_eq (obj_get (target p) property) v \<longrightarrow>
            set_trap p (PStr property) v w = (True, p, w)
            \<and> ((\<lambda>(q, u). snd (set_trap q (PStr property) v u)) ^^ n) (p, w) = (p, w))"
proof (intro conjI impI)
  assume "\<not> strict_eq (obj_get (target p) property) v"
  with assms show "set_trap p (PStr property) v w =
      (True, p\<lparr>target := obj_put (target p) property v\<rparr>,
       w\<lparr>fired := fired w @ [(property @ '':changed'', v, obj_get (target p) property)]\<rparr>)"
    by simp
  show "obj_get (obj_put (target p) property v) property = v"
    by (rule obj_get_put_same)
next
  assume "strict_eq (obj_get (target p) property) v"
  with assms show same: "set_trap p (PStr property) v w = (True, p, w)"
    by simp
  then have "(\<lambda>(q, u). snd (set_trap q (PStr property) v u)) (p, w) = (p, w)"
    by simp
  then show "((\<lambda>(q, u). snd (set_trap q (PStr property) v u)) ^^ n) (p, w) = (p, w)"
    by (rule funpow_fixed)
qed

text \<open>
  C2 on the state of \<^verbatim>\<open>main\<close>: the input mode written to a new value, and written
  to the value it has.
\<close>

theorem set_known_field_witness:
  "''inputMode'' \<in> members (observe initial_state)
   \<and> set_trap (observe initial_state) (PStr ''inputMode'') (JStr ''mobile'') empty_world =
       (True,
        (observe initial_state)\<lparr>target := obj_put initial_state ''inputMode'' (JStr ''mobile'')\<rparr>,
        empty_world\<lparr>fired := [(''inputMode:changed'', JStr ''mobile'', JStr ''desktop'')]\<rparr>)
   \<and> set_trap (observe initial_state) (PStr ''inputMode'') (JStr ''desktop'') empty_world =
       (True, observe initial_state, empty_world)
   \<and> ((\<lambda>(q, u). snd (set_trap q (PStr ''inputMode'') (JStr ''desktop'') u)) ^^ 3)
        (observe initial_state, empty_world) = (observe initial_state, empty_world)"
proof -
  have m: "''inputMode'' \<in> members (observe initial_state)"
    by (simp add: observe_def initial_state_def object_keys_def)
  have t: "target (observe initial_state) = initial_state"
    by (simp add: observe_def)
  have g: "obj_get initial_state ''inputMode'' = JStr ''desktop''"
    by (rule obj_get_initial_state)
  have f: "fired empty_world = []"
    by (simp add: empty_world_def)
  from set_known_field [OF m, of "JStr ''mobile''" empty_world 0]
  have a: "set_trap (observe initial_state) (PStr ''inputMode'') (JStr ''mobile'') empty_world =
       (True,
        (observe initial_state)\<lparr>target := obj_put initial_state ''inputMode'' (JStr ''mobile'')\<rparr>,
        empty_world\<lparr>fired := [(''inputMode:changed'', JStr ''mobile'', JStr ''desktop'')]\<rparr>)"
    by (simp add: t g f)
  from set_known_field [OF m, of "JStr ''desktop''" empty_world 3]
  have b: "set_trap (observe initial_state) (PStr ''inputMode'') (JStr ''desktop'') empty_world =
       (True, observe initial_state, empty_world)
     \<and> ((\<lambda>(q, u). snd (set_trap q (PStr ''inputMode'') (JStr ''desktop'') u)) ^^ 3)
        (observe initial_state, empty_world) = (observe initial_state, empty_world)"
    by (simp add: t g)
  from m a b show ?thesis by (intro conjI) (erule conjunct1 conjunct2 | assumption)+
qed

text \<open>
  Against C3 as stated: on the state of \<^verbatim>\<open>main\<close>, the assignment to a field the state
  does not have raises a \<^verbatim>\<open>TypeError\<close> to its caller, after the trap has reported on
  the console and returned false.
\<close>

theorem unknown_field_throws_counterexample:
  "assign (observe initial_state) (PStr ''bogusField'') (JNum (Fin 1)) empty_world
     = (Inl TypeError, observe initial_state,
        empty_world\<lparr>console := [[JStr ''Cannot set new property on target:'', JStr ''bogusField'']]\<rparr>)"
  by (simp add: assign_def observe_def initial_state_def object_keys_def empty_world_def)

text \<open>
  C3, as amended. For every proxy, a write under a symbol key or under a string that is
  not in the member set makes the trap return false, leave the proxy (so every stored
  field) as it is, add no call of \<^verbatim>\<open>fire\<close>, and add exactly one line to the error
  console; the trap itself throws nothing, and the assignment that reached it then
  raises a \<^verbatim>\<open>TypeError\<close> to its caller, with the proxy and the world as the trap left
  them.
\<close>

theorem unknown_field_rejected:
  assumes "case key of PSym s \<Rightarrow> True | PStr k \<Rightarrow> k \<notin> members p"
  shows "fst (set_trap p key v w) = False
       \<and> fst (snd (set_trap p key v w)) = p
       \<and> fired (snd (snd (set_trap p key v w))) = fired w
       \<and> (\<exists>msg. console (snd (snd (set_trap p key v w))) = console w @ [msg])
       \<and> fst (assign p key v w) = Inl TypeError
       \<and> snd (assign p key v w) = snd (set_trap p key v w)"
proof -
  have trap: "fst (set_trap p key v w) = False
       \<and> fst (snd (set_trap p key v w)) = p
       \<and> fired (snd (snd (set_trap p key v w))) = fired w
       \<and> (\<exists>msg. console (snd (snd (set_trap p key v w))) = console w @ [msg])"
  proof (cases key)
    case (PSym s)
    then show ?thesis by simp
  next
    case (PStr k)
    with assms have "k \<notin> members p" by simp
    with PStr show ?thesis by simp
  qed
  then have "fst (assign p key v w) = Inl TypeError
       \<and> snd (assign p key v w) = snd (set_trap p key v w)"
    by (cases "set_trap p key v w") (simp add: assign_def)
  with trap show ?thesis by simp
qed

text \<open>
  The amended C3 on the state of \<^verbatim>\<open>main\<close>: a field it does not have, and a symbol key.
\<close>

theorem unknown_field_rejected_witness:
  "fst (set_trap (observe initial_state) (PStr ''bogusField'') (JNum (Fin 1)) empty_world) = False
   \<and> fst (snd (set_trap (observe initial_state) (PStr ''bogusField'') (JNum (Fin 1)) empty_world))
       = observe initial_state
   \<and> fired (snd (snd (set_trap (observe initial_state) (PStr ''bogusField'') (JNum (Fin 1)) empty_world)))
       = []
   \<and> fst (assign (observe initial_state) (PStr ''bogusField'') (JNum (Fin 1)) empty_world)
       = Inl TypeError
   \<and> fst (assign (observe initial_state) (PSym 0) (JNum (Fin 1)) empty_world) = Inl TypeError"
proof -
  have h1: "case PStr ''bogusField'' of PSym s \<Rightarrow> True
            | PStr k \<Rightarrow> k \<notin> members (observe initial_state)"
    by (simp add: observe_def initial_state_def object_keys_def)
  have h2: "case PSym 0 of PSym s \<Rightarrow> True | PStr k \<Rightarrow> k \<notin> members (observe initial_state)"
    by simp
  have f: "fired empty_world = []"
    by (simp add: empty_world_def)
  from unknown_field_rejected [OF h1, of "JNum (Fin 1)" empty_world]
    unknown_field_rejected [OF h2, of "JNum (Fin 1)" empty_world] f
  show ?thesis by simp
qed

text \<open>
  Against C4 as stated: a read of a field that the state of \<^verbatim>\<open>main\<close> does not have
  gives \<^verbatim>\<open>undefined\<close> and leaves the error console empty, where a write to the same
  field returns false and reports on the console.
\<close>

theorem get_not_rejected_counterexample:
  "proxy_get (observe initial_state) (PStr ''bogusField'') empty_world
     = (JUndefined, observe initial_state, empty_world)
   \<and> console empty_world = []
   \<and> set_trap (observe initial_state) (PStr ''bogusField'') (JNum (Fin 1)) empty_world
     = (False, observe initial_state,
        empty_world\<lparr>console := [[JStr ''Cannot set new property on target:'', JStr ''bogusField'']]\<rparr>)"
proof -
  have t: "target (observe initial_state) = initial_state"
    by (simp add: observe_def)
  have "proxy_get (observe initial_state) (PStr ''bogusField'') empty_world
     = (JUndefined, observe initial_state, empty_world)"
    by (simp add: t obj_get_initial_state)
  moreover have "console empty_world = []"
    by (simp add: empty_world_def)
  moreover have "set_trap (observe initial_state) (PStr ''bogusField'') (JNum (Fin 1)) empty_world
     = (False, observe initial_state,
        empty_world\<lparr>console := [[JStr ''Cannot set new property on target:'', JStr ''bogusField'']]\<rparr>)"
    by (simp add: observe_def initial_state_def object_keys_def empty_world_def)
  ultimately show ?thesis by (intro conjI)
qed

text \<open>
  C4, as amended. A read is not intercepted: for every key, in the member set or not,
  it changes neither the proxy nor the world (no report, no event, no failure
  indicator) and gives what the target gives: for a string key the target's own value,
  else the value inherited from the prototype, else \<^verbatim>\<open>undefined\<close>; for a symbol key
  \<^verbatim>\<open>undefined\<close>.
\<close>

theorem get_forwards_to_target:
  "snd (proxy_get p key w) = (p, w)
   \<and> fst (proxy_get p key w) =
       (case key of
          PSym s \<Rightarrow> JUndefined
        | PStr k \<Rightarrow>
            (case own_get (target p) k of
               Some v \<Rightarrow> v
             | None \<Rightarrow> (case own_get object_prototype k of Some f \<Rightarrow> f | None \<Rightarrow> JUndefined)))"
proof (cases key)
  case (PSym s)
  then show ?thesis by simp
next
  case (PStr k)
  then show ?thesis by (simp add: obj_get_def)
qed

text \<open>
  The amended C4 on the state of \<^verbatim>\<open>main\<close>: a field it does not have, the progress
  field, and a name that only the prototype has.
\<close>

theorem get_forwards_to_target_witness:
  "snd (proxy_get (observe initial_state) (PStr ''bogusField'') empty_world)
     = (observe initial_state, empty_world)
   \<and> fst (proxy_get (observe initial_state) (PStr ''bogusField'') empty_world) = JUndefined
   \<and> fst (proxy_get (observe initial_state) (PStr ''progress'') empty_world) = JNum (Fin 0)
   \<and> fst (proxy_get (observe initial_state) (PStr ''toString'') empty_world)
       = JBuiltin ''Object.prototype.toString''"
proof -
  have t: "target (observe initial_state) = initial_state"
    by (simp add: observe_def)
  have o: "own_get initial_state ''bogusField'' = None"
    "own_get object_prototype ''bogusField'' = None"
    "own_get initial_state ''progress'' = Some (JNum (Fin 0))"
    "own_get initial_state ''toString'' = None"
    "own_get object_prototype ''toString'' = Some (JBuiltin ''Object.prototype.toString'')"
    by (simp_all add: initial_state_def object_prototype_def)
  from get_forwards_to_target [of "observe initial_state" "PStr ''bogusField''" empty_world]
    get_forwards_to_target [of "observe initial_state" "PStr ''progress''" empty_world]
    get_forwards_to_target [of "observe initial_state" "PStr ''toString''" empty_world]
  show ?thesis by (simp add: t o)
qed

section \<open>The progress handler: claims\<close>

text \<open>
  Against C1 as stated: a load that reports 250 of 1000 bytes and then 255 of 1000 bytes
  raises the percentage from 25 to 25.5. The second value is above the watermark, so the
  callback is called again, and its argument is 25 both times: the values passed to the
  callback are not strictly increasing.
\<close>

theorem progress_calls_repeat_counterexample:
  "calls (run_progress [(250, 1000), (255, 1000)]) = [25, 25]
   \<and> \<not> sorted_wrt (<) (calls (run_progress [(250, 1000), (255, 1000)]))"
proof -
  have eq: "calls (run_progress [(250, 1000), (255, 1000)]) = [25, 25]"
    by (simp add: run_progress_def on_progress_def progress_of_values progress_init_def
        math_trunc_def floor_rat_numeral)
  then show ?thesis by simp
qed

text \<open>
  C1, as amended. For every sequence of progress reports of one load, the integers
  passed to the progress callback never decrease and lie between 0 and 100. The
  watermark is the largest percentage reported so far (0 at the start), where the
  percentage of a report is the double \<^verbatim>\<open>Math.min(1, received / length) * 100\<close>. A
  report calls the callback exactly when its percentage is above the watermark, once,
  with the integer part of that percentage; the comparison is made before the
  truncation, so the same integer can be passed again.
\<close>

theorem progress_calls_nondecreasing:
  "sorted (calls (run_progress evs))
   \<and> list_all (\<lambda>v. 0 \<le> v \<and> v \<le> 100) (calls (run_progress evs))
   \<and> watermark (run_progress evs) =
       Max (insert 0 (set (List.map_filter (\<lambda>ev. progress_of (fst ev) (snd ev)) evs)))
   \<and> calls (run_progress []) = []
   \<and> calls (run_progress (evs @ [(received, len)])) =
       calls (run_progress evs) @
       (case progress_of received len of
          None \<Rightarrow> []
        | Some p \<Rightarrow> if watermark (run_progress evs) < p then [math_trunc p] else [])"
proof -
  obtain ws where c: "calls (run_progress evs) = map math_trunc ws"
    and s: "sorted_wrt (<) ws"
    and b: "\<forall>x \<in> set ws. 0 < x \<and> x \<le> 100"
    using run_progress_keeps by blast
  from s b have "sorted (map math_trunc ws)"
    by (simp add: sorted_map_math_trunc)
  with c have srt: "sorted (calls (run_progress evs))"
    by simp
  from b have "list_all (\<lambda>x. 0 < x \<and> x \<le> 100) ws"
    by (simp add: list_all_iff)
  then have "list_all (\<lambda>v. 0 \<le> v \<and> v \<le> 100) (map math_trunc ws)"
    by (rule list_all_math_trunc)
  with c have bnd: "list_all (\<lambda>v. 0 \<le> v \<and> v \<le> 100) (calls (run_progress evs))"
    by simp
  have wm: "watermark (run_progress evs) =
       Max (insert 0 (set (List.map_filter (\<lambda>ev. progress_of (fst ev) (snd ev)) evs)))"
    unfolding run_progress_def using watermark_foldl [of progress_init evs]
    by (simp add: progress_init_def)
  have nil: "calls (run_progress []) = []"
    by (simp add: run_progress_def progress_init_def)
  have step: "calls (run_progress (evs @ [(received, len)])) =
       calls (run_progress evs) @
       (case progress_of received len of
          None \<Rightarrow> []
        | Some p \<Rightarrow> if watermark (run_progress evs) < p then [math_trunc p] else [])"
    by (simp add: run_progress_snoc on_progress_def split: option.splits)
  from srt bnd wm nil step show ?thesis by (intro conjI)
qed

text \<open>
  The amended C1 on the two reports above followed by 29 of 100 bytes, whose percentage
  is the double just below 29: a third call, with 28.
\<close>

theorem progress_calls_nondecreasing_witness:
  "sorted (calls (run_progress [(250, 1000), (255, 1000)]))
   \<and> calls (run_progress ([(250, 1000), (255, 1000)] @ [(29, 100)])) = [25, 25, 28]"
proof -
  have two: "run_progress [(250, 1000), (255, 1000)] = \<lparr>watermark = 51 / 2, calls = [25, 25]\<rparr>"
    by (simp add: run_progress_def on_progress_def progress_of_values progress_init_def
        math_trunc_def floor_rat_numeral)
  have t: "math_trunc (8162774324609023 / 281474976710656) = 28"
    by (simp add: math_trunc_def floor_rat_numeral)
  from progress_calls_nondecreasing [of "[(250, 1000), (255, 1000)]" 29 100]
  show ?thesis by (simp add: two t progress_of_values)
qed

text \<open>
  C5. A load that starts with the watermark 0 and reports 50 of 200 bytes, then 200 of
  200 bytes, calls the progress callback exactly twice: with 25, then with 100.
\<close>

theorem scenario_a_calls:
  "watermark progress_init = 0
   \<and> calls (run_progress [(50, 200), (200, 200)]) = [25, 100]"
proof (rule conjI)
  show "watermark progress_init = 0" by (simp add: progress_init_def)
  show "calls (run_progress [(50, 200), (200, 200)]) = [25, 100]"
    by (simp add: run_progress_def on_progress_def progress_of_values progress_init_def
        math_trunc_def)
qed

section \<open>The content loader: claims\<close>

text \<open>
  C7. When the URL of the content parses, and the lower-cased file name is
  \<^verbatim>\<open>meta.json\<close>, the loader first deserializes the contents and builds the asset with
  the result as its data (and builds no asset when the deserialization throws); for
  every other file name the asset is built at once, with the contents as they are and
  with \<^verbatim>\<open>undefined\<close> data, whatever the deserializer would do.
\<close>

theorem manifest_deserialized:
  assumes "url_pathname (contentUrl cfg) = Inr pathname"
  shows "(toLowerCase (filename_of pathname) = ''meta.json'' \<longrightarrow>
            loadGsplat_asset url_pathname json cfg =
              (case json (contents cfg) of
                 Inl e \<Rightarrow> Inl e
               | Inr d \<Rightarrow>
                   Inr \<lparr>asset_name = filename_of pathname, asset_type = ''gsplat'',
                        file_url = contentUrl cfg, file_filename = filename_of pathname,
                        file_contents = contents cfg, asset_data = Some d\<rparr>))
       \<and> (toLowerCase (filename_of pathname) \<noteq> ''meta.json'' \<longrightarrow>
            loadGsplat_asset url_pathname json cfg =
              Inr \<lparr>asset_name = filename_of pathname, asset_type = ''gsplat'',
                   file_url = contentUrl cfg, file_filename = filename_of pathname,
                   file_contents = contents cfg, asset_data = None\<rparr>)"
proof (intro conjI impI)
  assume "toLowerCase (filename_of pathname) = ''meta.json''"
  with assms show "loadGsplat_asset url_pathname json cfg =
      (case json (contents cfg) of
         Inl e \<Rightarrow> Inl e
       | Inr d \<Rightarrow>
           Inr \<lparr>asset_name = filename_of pathname, asset_type = ''gsplat'',
                file_url = contentUrl cfg, file_filename = filename_of pathname,
                file_contents = contents cfg, asset_data = Some d\<rparr>)"
    by (simp add: loadGsplat_asset_def Let_def)
next
  assume "toLowerCase (filename_of pathname) \<noteq> ''meta.json''"
  with assms show "loadGsplat_asset url_pathname json cfg =
      Inr \<lparr>asset_name = filename_of pathname, asset_type = ''gsplat'',
           file_url = contentUrl cfg, file_filename = filename_of pathname,
           file_contents = contents cfg, asset_data = None\<rparr>"
    by (simp add: loadGsplat_asset_def Let_def)
qed

text \<open>
  C7 on two contents: a manifest in capitals, which is deserialized, and a scene file
  with a deserializer that would throw, which is loaded all the same.
\<close>

theorem manifest_deserialized_witness:
  "(let url = (Inr :: string \<Rightarrow> unit + string);
        json = (\<lambda>b. Inr (length b) :: unit + nat);
        cfg = \<lparr>contents = ''{}'', contentUrl = ''/scene/META.json'', unified = False,
               aa = False, skyboxUrl = None, skyboxProjection = None,
               skyboxScale = None, skyboxCenter = None\<rparr>
    in loadGsplat_asset url json cfg =
         Inr \<lparr>asset_name = ''META.json'', asset_type = ''gsplat'',
              file_url = ''/scene/META.json'', file_filename = ''META.json'',
              file_contents = ''{}'', asset_data = Some 2\<rparr>
       \<and> loadGsplat_asset url (\<lambda>b. Inl () :: unit + nat)
           (cfg\<lparr>contentUrl := ''/scene/scene.ply''\<rparr>) =
         Inr \<lparr>asset_name = ''scene.ply'', asset_type = ''gsplat'',
              file_url = ''/scene/scene.ply'', file_filename = ''scene.ply'',
              file_contents = ''{}'', asset_data = None\<rparr>)"
proof -
  let ?url = "Inr :: string \<Rightarrow> unit + string"
  let ?json = "\<lambda>b. Inr (length b) :: unit + nat"
  let ?fail = "\<lambda>b. Inl () :: unit + nat"
  let ?cfg = "\<lparr>contents = ''{}'', contentUrl = ''/scene/META.json'', unified = False,
               aa = False, skyboxUrl = None, skyboxProjection = None,
               skyboxScale = None, skyboxCenter = None\<rparr>"
  have p1: "?url (contentUrl ?cfg) = Inr ''/scene/META.json''"
    by simp
  have p2: "?url (contentUrl (?cfg\<lparr>contentUrl := ''/scene/scene.ply''\<rparr>)) = Inr ''/scene/scene.ply''"
    by simp
  have m: "toLowerCase (filename_of ''/scene/META.json'') = ''meta.json''"
    by (simp add: filename_eval lower_eval)
  have n: "toLowerCase (filename_of ''/scene/scene.ply'') \<noteq> ''meta.json''"
    by (simp add: filename_eval lower_eval)
  from manifest_deserialized
    [where url_pathname = ?url and cfg = ?cfg and json = ?json
       and pathname = "''/scene/META.json''", OF p1] m
  have a: "loadGsplat_asset ?url ?json ?cfg =
         Inr \<lparr>asset_name = ''META.json'', asset_type = ''gsplat'',
              file_url = ''/scene/META.json'', file_filename = ''META.json'',
              file_contents = ''{}'', asset_data = Some 2\<rparr>"
    by (simp add: filename_eval)
  from manifest_deserialized
    [where url_pathname = ?url and cfg = "?cfg\<lparr>contentUrl := ''/scene/scene.ply''\<rparr>"
       and json = ?fail and pathname = "''/scene/scene.ply''", OF p2] n
  have b: "loadGsplat_asset ?url ?fail (?cfg\<lparr>contentUrl := ''/scene/scene.ply''\<rparr>) =
         Inr \<lparr>asset_name = ''scene.ply'', asset_type = ''gsplat'',
              file_url = ''/scene/scene.ply'', file_filename = ''scene.ply'',
              file_contents = ''{}'', asset_data = None\<rparr>"
    by (simp add: filename_eval)
  from a b show ?thesis unfolding Let_def by (rule conjI)
qed

text \<open>
  C9. When the lower-cased file name ends with \<^verbatim>\<open>lod-meta.json\<close>, the entity's
  component is unified whatever the configuration's flag is, and the asset is built
  with \<^verbatim>\<open>undefined\<close> data; an asset has data only when the whole lower-cased file
  name is \<^verbatim>\<open>meta.json\<close>.
\<close>

theorem lod_manifest_unified_not_parsed:
  assumes "url_pathname (contentUrl cfg) = Inr pathname"
  shows "(endsWith (toLowerCase (filename_of pathname)) ''lod-meta.json'' \<longrightarrow>
            gsplat_unified (on_load (cfg\<lparr>unified := b\<rparr>) (filename_of pathname))
            \<and> loadGsplat_asset url_pathname json cfg =
                 Inr \<lparr>asset_name = filename_of pathname, asset_type = ''gsplat'',
                      file_url = contentUrl cfg, file_filename = filename_of pathname,
                      file_contents = contents cfg, asset_data = None\<rparr>)
       \<and> (\<forall>a d. loadGsplat_asset url_pathname json cfg = Inr a \<and> asset_data a = Some d
              \<longrightarrow> toLowerCase (filename_of pathname) = ''meta.json'')"
proof (intro conjI impI allI)
  assume e: "endsWith (toLowerCase (filename_of pathname)) ''lod-meta.json''"
  then show "gsplat_unified (on_load (cfg\<lparr>unified := b\<rparr>) (filename_of pathname))"
    by (simp add: on_load_def Let_def)
  from e have "toLowerCase (filename_of pathname) \<noteq> ''meta.json''"
    by (rule lod_not_manifest)
  with assms show "loadGsplat_asset url_pathname json cfg =
      Inr \<lparr>asset_name = filename_of pathname, asset_type = ''gsplat'',
           file_url = contentUrl cfg, file_filename = filename_of pathname,
           file_contents = contents cfg, asset_data = None\<rparr>"
    by (simp add: loadGsplat_asset_def Let_def)
next
  fix a d
  assume r: "loadGsplat_asset url_pathname json cfg = Inr a \<and> asset_data a = Some d"
  show "toLowerCase (filename_of pathname) = ''meta.json''"
  proof (rule ccontr)
    assume "toLowerCase (filename_of pathname) \<noteq> ''meta.json''"
    with assms have "loadGsplat_asset url_pathname json cfg =
      Inr \<lparr>asset_name = filename_of pathname, asset_type = ''gsplat'',
           file_url = contentUrl cfg, file_filename = filename_of pathname,
           file_contents = contents cfg, asset_data = None\<rparr>"
      by (simp add: loadGsplat_asset_def Let_def)
    with r show False by auto
  qed
qed

text \<open>
  C9 on a level-of-detail manifest with the flag off.
\<close>

theorem lod_manifest_unified_not_parsed_witness:
  "(let url = (Inr :: string \<Rightarrow> unit + string);
        json = (\<lambda>b. Inr (length b) :: unit + nat);
        cfg = \<lparr>contents = ''{}'', contentUrl = ''/scene/LOD-meta.json'', unified = False,
               aa = False, skyboxUrl = None, skyboxProjection = None,
               skyboxScale = None, skyboxCenter = None\<rparr>
    in gsplat_unified (on_load cfg ''LOD-meta.json'')
       \<and> loadGsplat_asset url json cfg =
         Inr \<lparr>asset_name = ''LOD-meta.json'', asset_type = ''gsplat'',
              file_url = ''/scene/LOD-meta.json'', file_filename = ''LOD-meta.json'',
              file_contents = ''{}'', asset_data = None\<rparr>)"
proof -
  let ?url = "Inr :: string \<Rightarrow> unit + string"
  let ?json = "\<lambda>b. Inr (length b) :: unit + nat"
  let ?cfg = "\<lparr>contents = ''{}'', contentUrl = ''/scene/LOD-meta.json'', unified = False,
               aa = False, skyboxUrl = None, skyboxProjection = None,
               skyboxScale = None, skyboxCenter = None\<rparr>"
  have p: "?url (contentUrl ?cfg) = Inr ''/scene/LOD-meta.json''"
    by simp
  have e: "endsWith (toLowerCase (filename_of ''/scene/LOD-meta.json'')) ''lod-meta.json''"
    by (simp add: filename_eval lower_eval endsWith_def)
  from lod_manifest_unified_not_parsed
    [where url_pathname = ?url and cfg = ?cfg and json = ?json and b = False
       and pathname = "''/scene/LOD-meta.json''", OF p] e
  show ?thesis unfolding Let_def by (simp add: filename_eval)
qed

section \<open>The orchestrator: claims\<close>

text \<open>
  C6. Each skybox value is the configuration's when present, else the settings' when
  present, else the built-in one (projection \<^verbatim>\<open>box\<close>, scale 200, center at the origin;
  the URL has none). For the URL and the projection, joined by \<^verbatim>\<open>||\<close>, present means a
  string that is not empty; for the scale, joined by \<^verbatim>\<open>??\<close>, and for the center, an
  array, it means defined.
\<close>

theorem skybox_precedence:
  "res_skyboxUrl (main bg cfg) =
     (if truthy_str (skyboxUrl cfg) then skyboxUrl cfg else bg_skyboxUrl bg)
   \<and> res_skyboxProjection (main bg cfg) =
     (if truthy_str (skyboxProjection cfg) then skyboxProjection cfg
      else if truthy_str (bg_skyboxProjection bg) then bg_skyboxProjection bg
      else Some ''box'')
   \<and> res_skyboxScale (main bg cfg) =
     (case skyboxScale cfg of Some x \<Rightarrow> Some x
      | None \<Rightarrow> (case bg_skyboxScale bg of Some y \<Rightarrow> Some y | None \<Rightarrow> Some (Fin 200)))
   \<and> res_skyboxCenter (main bg cfg) =
     (case skyboxCenter cfg of Some x \<Rightarrow> Some x
      | None \<Rightarrow> (case bg_skyboxCenter bg of Some y \<Rightarrow> Some y
                  | None \<Rightarrow> Some [Fin 0, Fin 0, Fin 0]))"
proof (intro conjI)
  show "res_skyboxUrl (main bg cfg) =
     (if truthy_str (skyboxUrl cfg) then skyboxUrl cfg else bg_skyboxUrl bg)"
    by (simp add: main_skyboxUrl or_str_def)
  show "res_skyboxProjection (main bg cfg) =
     (if truthy_str (skyboxProjection cfg) then skyboxProjection cfg
      else if truthy_str (bg_skyboxProjection bg) then bg_skyboxProjection bg
      else Some ''box'')"
    by (simp add: main_def Let_def or_str_def)
  show "res_skyboxScale (main bg cfg) =
     (case skyboxScale cfg of Some x \<Rightarrow> Some x
      | None \<Rightarrow> (case bg_skyboxScale bg of Some y \<Rightarrow> Some y | None \<Rightarrow> Some (Fin 200)))"
    by (simp add: main_def Let_def split: option.splits)
  show "res_skyboxCenter (main bg cfg) =
     (case skyboxCenter cfg of Some x \<Rightarrow> Some x
      | None \<Rightarrow> (case bg_skyboxCenter bg of Some y \<Rightarrow> Some y
                  | None \<Rightarrow> Some [Fin 0, Fin 0, Fin 0]))"
    by (simp add: main_def Let_def split: option.splits)
qed

text \<open>
  C6 on a configuration with an empty URL and the scale 0, over settings with a URL, a
  projection and a scale.
\<close>

theorem skybox_precedence_witness:
  "(let cfg = \<lparr>contents = (), contentUrl = ''scene.ply'', unified = False, aa = False,
               skyboxUrl = Some '''', skyboxProjection = None,
               skyboxScale = Some (Fin 0), skyboxCenter = None\<rparr>;
        bg = \<lparr>bg_skyboxUrl = Some ''sky.png'', bg_skyboxProjection = Some ''dome'',
              bg_skyboxScale = Some (Fin 50), bg_skyboxCenter = None\<rparr>
    in res_skyboxUrl (main bg cfg) = Some ''sky.png''
       \<and> res_skyboxProjection (main bg cfg) = Some ''dome''
       \<and> res_skyboxScale (main bg cfg) = Some (Fin 0)
       \<and> res_skyboxCenter (main bg cfg) = Some [Fin 0, Fin 0, Fin 0])"
  unfolding Let_def
  using skybox_precedence
    [of "\<lparr>bg_skyboxUrl = Some ''sky.png'', bg_skyboxProjection = Some ''dome'',
          bg_skyboxScale = Some (Fin 50), bg_skyboxCenter = None\<rparr>"
        "\<lparr>contents = (), contentUrl = ''scene.ply'', unified = False, aa = False,
          skyboxUrl = Some '''', skyboxProjection = None,
          skyboxScale = Some (Fin 0), skyboxCenter = None\<rparr>"]
  by simp

text \<open>
  C8. For every configuration and settings, \<^verbatim>\<open>main\<close> starts the content load, once;
  it starts a skybox load exactly when the resolved URL is truthy, which is when the
  configuration's or the settings' URL is; with neither, the content load is the only
  load started.
\<close>

theorem loaders_started:
  "viewer_gsplatLoad (main bg cfg) = Promise GsplatLoad
   \<and> count_list (started (main bg cfg)) GsplatLoad = 1
   \<and> ((\<exists>u. SkyboxLoad u \<in> set (started (main bg cfg)))
        \<longleftrightarrow> truthy_str (res_skyboxUrl (main bg cfg)))
   \<and> (truthy_str (res_skyboxUrl (main bg cfg))
        \<longleftrightarrow> truthy_str (skyboxUrl cfg) \<or> truthy_str (bg_skyboxUrl bg))
   \<and> (\<not> truthy_str (skyboxUrl cfg) \<and> \<not> truthy_str (bg_skyboxUrl bg)
        \<longrightarrow> started (main bg cfg) = [GsplatLoad])
   \<and> (truthy_str (skyboxUrl cfg) \<or> truthy_str (bg_skyboxUrl bg)
        \<longrightarrow> (\<exists>u. res_skyboxUrl (main bg cfg) = Some u
                  \<and> started (main bg cfg) = [GsplatLoad, SkyboxLoad u]))"
proof -
  let ?url = "res_skyboxUrl (main bg cfg)"
  have g: "viewer_gsplatLoad (main bg cfg) = Promise GsplatLoad"
    by (simp add: main_def Let_def)
  have st: "started (main bg cfg) = GsplatLoad # loads_of (and_loadSkybox ?url)"
    by (simp add: main_started main_skyboxLoad)
  have t: "truthy_str ?url \<longleftrightarrow> truthy_str (skyboxUrl cfg) \<or> truthy_str (bg_skyboxUrl bg)"
    by (simp add: main_skyboxUrl truthy_or_str)
  show ?thesis
  proof (cases "truthy_str ?url")
    case True
    then obtain s where "?url = Some s" "and_loadSkybox ?url = Promise (SkyboxLoad s)"
      using and_loadSkybox_truthy by blast
    with True g st t show ?thesis by auto
  next
    case False
    then have "and_loadSkybox ?url = Falsy ?url"
      by (rule and_loadSkybox_falsy)
    with False g st t show ?thesis by auto
  qed
qed

text \<open>
  C8 on a configuration with no skybox URL, over settings without and with one.
\<close>

theorem loaders_started_witness:
  "(let cfg = \<lparr>contents = (), contentUrl = ''scene.ply'', unified = False, aa = False,
               skyboxUrl = None, skyboxProjection = None,
               skyboxScale = None, skyboxCenter = None\<rparr>;
        none = \<lparr>bg_skyboxUrl = None, bg_skyboxProjection = None,
                bg_skyboxScale = None, bg_skyboxCenter = None\<rparr>;
        sky = \<lparr>bg_skyboxUrl = Some ''sky.png'', bg_skyboxProjection = None,
               bg_skyboxScale = None, bg_skyboxCenter = None\<rparr>
    in started (main none cfg) = [GsplatLoad]
       \<and> started (main sky cfg) = [GsplatLoad, SkyboxLoad ''sky.png''])"
  unfolding Let_def
  using loaders_started
    [of "\<lparr>bg_skyboxUrl = None, bg_skyboxProjection = None,
          bg_skyboxScale = None, bg_skyboxCenter = None\<rparr>"
        "\<lparr>contents = (), contentUrl = ''scene.ply'', unified = False, aa = False,
          skyboxUrl = None, skyboxProjection = None,
          skyboxScale = None, skyboxCenter = None\<rparr>"]
    loaders_started
    [of "\<lparr>bg_skyboxUrl = Some ''sky.png'', bg_skyboxProjection = None,
          bg_skyboxScale = None, bg_skyboxCenter = None\<rparr>"
        "\<lparr>contents = (), contentUrl = ''scene.ply'', unified = False, aa = False,
          skyboxUrl = None, skyboxProjection = None,
          skyboxScale = None, skyboxCenter = None\<rparr>"]
  by (simp add: main_skyboxUrl or_str_def)

text \<open>
  C10. When the resolved URL is falsy, the skybox argument of the viewer is that value
  and not a promise; the argument is a promise exactly when a skybox load has been
  started, and then it is the promise of that load.
\<close>

theorem skybox_handle:
  "(\<not> truthy_str (res_skyboxUrl (main bg cfg))
      \<longrightarrow> viewer_skyboxLoad (main bg cfg) = Falsy (res_skyboxUrl (main bg cfg)))
   \<and> ((\<exists>l. viewer_skyboxLoad (main bg cfg) = Promise l)
        \<longleftrightarrow> (\<exists>u. SkyboxLoad u \<in> set (started (main bg cfg))))
   \<and> (\<forall>l. viewer_skyboxLoad (main bg cfg) = Promise l
        \<longrightarrow> started (main bg cfg) = [GsplatLoad, l])"
proof -
  let ?url = "res_skyboxUrl (main bg cfg)"
  have st: "started (main bg cfg) = GsplatLoad # loads_of (viewer_skyboxLoad (main bg cfg))"
    by (rule main_started)
  have h: "viewer_skyboxLoad (main bg cfg) = and_loadSkybox ?url"
    by (rule main_skyboxLoad)
  show ?thesis
  proof (cases "truthy_str ?url")
    case True
    then obtain s where "and_loadSkybox ?url = Promise (SkyboxLoad s)"
      using and_loadSkybox_truthy by blast
    with True st h show ?thesis by auto
  next
    case False
    then have "and_loadSkybox ?url = Falsy ?url"
      by (rule and_loadSkybox_falsy)
    with False st h show ?thesis by auto
  qed
qed

text \<open>
  C10 on settings whose URL is the empty string: the viewer is handed the empty
  string.
\<close>

theorem skybox_handle_witness:
  "(let cfg = \<lparr>contents = (), contentUrl = ''scene.ply'', unified = False, aa = False,
               skyboxUrl = None, skyboxProjection = None,
               skyboxScale = None, skyboxCenter = None\<rparr>;
        none = \<lparr>bg_skyboxUrl = Some '''', bg_skyboxProjection = None,
                bg_skyboxScale = None, bg_skyboxCenter = None\<rparr>
    in res_skyboxUrl (main none cfg) = Some ''''
       \<and> viewer_skyboxLoad (main none cfg) = Falsy (Some '''')
       \<and> started (main none cfg) = [GsplatLoad])"
proof -
  let ?cfg = "\<lparr>contents = (), contentUrl = ''scene.ply'', unified = False, aa = False,
               skyboxUrl = None, skyboxProjection = None,
               skyboxScale = None, skyboxCenter = None\<rparr>"
  let ?none = "\<lparr>bg_skyboxUrl = Some '''', bg_skyboxProjection = None,
                bg_skyboxScale = None, bg_skyboxCenter = None\<rparr>"
  have u: "res_skyboxUrl (main ?none ?cfg) = Some ''''"
    by (simp add: main_skyboxUrl or_str_def)
  then have "\<not> truthy_str (res_skyboxUrl (main ?none ?cfg))"
    by simp
  with skybox_handle [of ?none ?cfg]
  have "viewer_skyboxLoad (main ?none ?cfg) = Falsy (res_skyboxUrl (main ?none ?cfg))"
    by blast
  with u have "viewer_skyboxLoad (main ?none ?cfg) = Falsy (Some '''')"
    by simp
  moreover have "started (main ?none ?cfg) = [GsplatLoad]"
    by (simp add: main_def Let_def or_str_def)
  ultimately show ?thesis unfolding Let_def using u by blast
qed

end
